theory Spec2Isabelle
  imports Main "HOL-Library.Word"
begin

section \<open>Value domain and predicate vocabulary\<close>

text \<open>
  The scan operators of the column store (\<^verbatim>\<open>SingleColumnTableScanImpl\<close> and
  \<^verbatim>\<open>ColumnBetweenTableScanImpl\<close>) are embedded as HOL functions.  An
  \<^verbatim>\<open>AllTypeVariant\<close> is an \<open>'a option\<close>, \<open>None\<close> being
  \<^verbatim>\<open>NULL_VALUE\<close>; a \<^verbatim>\<open>ValueID\<close> is an unsigned 32-bit word, so that
  the subtraction of value ids wraps as it does in the C++; \<^verbatim>\<open>Fail(...)\<close> is the
  error value \<open>Fail\<close>.
\<close>

datatype PredicateCondition =
  Equals | NotEquals | LessThan | LessThanEquals | GreaterThan | GreaterThanEquals
  | Between | In | NotIn | Like | NotLike | IsNull | IsNotNull

datatype error = Fail

type_synonym ChunkID = nat
type_synonym ChunkOffset = nat
type_synonym RowID = "ChunkID \<times> ChunkOffset"
type_synonym PosList = "RowID list"
type_synonym ValueID = "32 word"

definition INVALID_VALUE_ID :: ValueID where
  "INVALID_VALUE_ID = 4294967295"

definition variant_is_null :: "'a option \<Rightarrow> bool" where
  "variant_is_null v = (v = None)"

section \<open>Segments and their iterables\<close>

record 'a ValueSegment =
  segment_values :: "'a list"
  null_values :: "bool list"

record 'a DictionarySegment =
  dictionary :: "'a list"
  attribute_vector :: "ValueID list"

text \<open>
  A segment is unencoded, dictionary-encoded, or in another encoding (run length, frame
  of reference, ...).  The scans read a segment of the last kind through its iterable
  only, so it is represented by what the iterable yields: its decoded values and their
  null flags.
\<close>

datatype 'a Segment =
  ValueSeg "'a ValueSegment"
  | DictionarySeg "'a DictionarySegment"
  | EncodedSeg "'a ValueSegment"

text \<open>What an iterator yields: \<^verbatim>\<open>value()\<close>, \<^verbatim>\<open>is_null()\<close> and \<^verbatim>\<open>chunk_offset()\<close>.\<close>

datatype 'v SegmentPosition =
  SegmentPosition (pos_value: 'v) (pos_is_null: bool) (pos_chunk_offset: ChunkOffset)

text \<open>
  Modelled from the spec: the iterables (\<^verbatim>\<open>create_iterable_from_column\<close>,
  \<^verbatim>\<open>create_iterable_from_attribute_vector\<close> and their \<^verbatim>\<open>with_iterators\<close>) are not
  among the sources.  Without a position filter every offset of the segment is visited in
  ascending order; with one, the entries of the filter are visited in order, the value is
  read at the referenced offset and the position reported is the index into the filter.
  An attribute-vector position is null when its value id is the reserved sentinel.
\<close>

definition chunk_offsets_list :: "nat \<Rightarrow> ChunkOffset list option \<Rightarrow> (ChunkOffset \<times> ChunkOffset) list" where
  "chunk_offsets_list n position_filter =
     (case position_filter of
        None \<Rightarrow> map (\<lambda>i. (i, i)) [0..<n]
      | Some offsets \<Rightarrow> zip [0..<length offsets] offsets)"

definition value_segment_iterable ::
  "'a ValueSegment \<Rightarrow> ChunkOffset list option \<Rightarrow> 'a SegmentPosition list" where
  "value_segment_iterable segment position_filter =
     map (\<lambda>(j, i). SegmentPosition (segment_values segment ! i) (null_values segment ! i) j)
       (chunk_offsets_list (length (segment_values segment)) position_filter)"

definition attribute_vector_iterable ::
  "'a DictionarySegment \<Rightarrow> ChunkOffset list option \<Rightarrow> ValueID SegmentPosition list" where
  "attribute_vector_iterable segment position_filter =
     map (\<lambda>(j, i). SegmentPosition (attribute_vector segment ! i)
                      (attribute_vector segment ! i = INVALID_VALUE_ID) j)
       (chunk_offsets_list (length (attribute_vector segment)) position_filter)"

text \<open>
  Modelled from the spec: \<^verbatim>\<open>lower_bound\<close>, \<^verbatim>\<open>upper_bound\<close> and
  \<^verbatim>\<open>unique_values_count\<close> of the dictionary segment are not among the sources.  They
  search the dictionary for the first entry not below (respectively above) the value and
  return its index, or the sentinel when there is none; a null variant gives the sentinel
  (the comment in \<^verbatim>\<open>_scan_dictionary_segment\<close> says so).
\<close>

definition unique_values_count :: "'a DictionarySegment \<Rightarrow> nat" where
  "unique_values_count segment = length (dictionary segment)"

definition lower_bound :: "'a::linorder DictionarySegment \<Rightarrow> 'a option \<Rightarrow> ValueID" where
  "lower_bound segment v =
     (case v of
        None \<Rightarrow> INVALID_VALUE_ID
      | Some x \<Rightarrow>
          (let i = length (takeWhile (\<lambda>d. d < x) (dictionary segment))
           in if i = length (dictionary segment) then INVALID_VALUE_ID else of_nat i))"

definition upper_bound :: "'a::linorder DictionarySegment \<Rightarrow> 'a option \<Rightarrow> ValueID" where
  "upper_bound segment v =
     (case v of
        None \<Rightarrow> INVALID_VALUE_ID
      | Some x \<Rightarrow>
          (let i = length (takeWhile (\<lambda>d. d \<le> x) (dictionary segment))
           in if i = length (dictionary segment) then INVALID_VALUE_ID else of_nat i))"

section \<open>The scan loops\<close>

text \<open>
  Modelled from the spec: \<^verbatim>\<open>_unary_scan\<close>, \<^verbatim>\<open>_binary_scan\<close> and
  \<^verbatim>\<open>_scan_with_iterators<CheckForNull>\<close> of the scan base class are not among the
  sources.  They walk the positions, skip a null position (the last one only when
  \<^verbatim>\<open>CheckForNull\<close> is set) and append \<open>(chunk_id, chunk_offset)\<close> for each position the
  functor accepts.  The right operand of \<^verbatim>\<open>_binary_scan\<close> comes from a
  \<^verbatim>\<open>ConstantValueIterable\<close>, here the variant itself.
\<close>

fun unary_scan ::
  "('l \<Rightarrow> bool) \<Rightarrow> 'l SegmentPosition list \<Rightarrow> ChunkID \<Rightarrow> PosList \<Rightarrow> PosList" where
  "unary_scan func [] chunk_id matches_out = matches_out"
| "unary_scan func (left # rest) chunk_id matches_out =
     (if pos_is_null left then unary_scan func rest chunk_id matches_out
      else if func (pos_value left)
        then unary_scan func rest chunk_id (matches_out @ [(chunk_id, pos_chunk_offset left)])
        else unary_scan func rest chunk_id matches_out)"

fun binary_scan ::
  "('l \<Rightarrow> 'r \<Rightarrow> bool) \<Rightarrow> 'l SegmentPosition list \<Rightarrow> 'r option \<Rightarrow> ChunkID \<Rightarrow> PosList \<Rightarrow> PosList" where
  "binary_scan func [] right chunk_id matches_out = matches_out"
| "binary_scan func (left # rest) right chunk_id matches_out =
     (case right of
        None \<Rightarrow> binary_scan func rest right chunk_id matches_out
      | Some r \<Rightarrow>
          if pos_is_null left then binary_scan func rest right chunk_id matches_out
          else if func (pos_value left) r
            then binary_scan func rest right chunk_id (matches_out @ [(chunk_id, pos_chunk_offset left)])
            else binary_scan func rest right chunk_id matches_out)"

fun scan_with_iterators ::
  "bool \<Rightarrow> ('l SegmentPosition \<Rightarrow> bool) \<Rightarrow> 'l SegmentPosition list \<Rightarrow> ChunkID \<Rightarrow> PosList \<Rightarrow> PosList" where
  "scan_with_iterators CheckForNull func [] chunk_id matches = matches"
| "scan_with_iterators CheckForNull func (left # rest) chunk_id matches =
     (if (\<not> CheckForNull \<or> \<not> pos_is_null left) \<and> func left
        then scan_with_iterators CheckForNull func rest chunk_id (matches @ [(chunk_id, pos_chunk_offset left)])
        else scan_with_iterators CheckForNull func rest chunk_id matches)"

text \<open>
  Modelled from the spec: \<^verbatim>\<open>with_comparator\<close> (type_comparison.hpp) is not among the
  sources; it hands the functor the comparison that the condition names and fails on any
  other condition.
\<close>

fun with_comparator :: "PredicateCondition \<Rightarrow> error + ('a::linorder \<Rightarrow> 'a \<Rightarrow> bool)" where
  "with_comparator Equals = Inr (\<lambda>l r. l = r)"
| "with_comparator NotEquals = Inr (\<lambda>l r. l \<noteq> r)"
| "with_comparator LessThan = Inr (\<lambda>l r. l < r)"
| "with_comparator LessThanEquals = Inr (\<lambda>l r. l \<le> r)"
| "with_comparator GreaterThan = Inr (\<lambda>l r. l > r)"
| "with_comparator GreaterThanEquals = Inr (\<lambda>l r. l \<ge> r)"
| "with_comparator _ = Inl Fail"

section \<open>SingleColumnTableScanImpl\<close>

text \<open>\<^verbatim>\<open>handle_column(const BaseValueColumn&, ...)\<close>: the generic scan of a value column.\<close>

definition handle_value_column ::
  "PredicateCondition \<Rightarrow> 'a::linorder option \<Rightarrow> 'a ValueSegment \<Rightarrow> ChunkID
     \<Rightarrow> ChunkOffset list option \<Rightarrow> PosList \<Rightarrow> error + PosList" where
  "handle_value_column predicate_condition right_value left_column chunk_id mapped_chunk_offsets matches_out =
     (let left_column_iterable = value_segment_iterable left_column mapped_chunk_offsets in
      case with_comparator predicate_condition of
        Inl e \<Rightarrow> Inl e
      | Inr comparator \<Rightarrow>
          Inr (binary_scan comparator left_column_iterable right_value chunk_id matches_out))"

text \<open>\<^verbatim>\<open>handle_column(const BaseEncodedColumn&, ...)\<close>: the same scan over the iterable
  of the encoded column.\<close>

definition handle_encoded_column ::
  "PredicateCondition \<Rightarrow> 'a::linorder option \<Rightarrow> 'a ValueSegment \<Rightarrow> ChunkID
     \<Rightarrow> ChunkOffset list option \<Rightarrow> PosList \<Rightarrow> error + PosList" where
  "handle_encoded_column predicate_condition right_value base_column chunk_id mapped_chunk_offsets matches_out =
     (let left_column_iterable = value_segment_iterable base_column mapped_chunk_offsets in
      case with_comparator predicate_condition of
        Inl e \<Rightarrow> Inl e
      | Inr comparator \<Rightarrow>
          Inr (binary_scan comparator left_column_iterable right_value chunk_id matches_out))"

text \<open>\<^verbatim>\<open>_get_search_value_id\<close>, \<^verbatim>\<open>_right_value_matches_all\<close>,
  \<^verbatim>\<open>_right_value_matches_none\<close>: one equation per \<^verbatim>\<open>case\<close> of the switch.\<close>

fun get_search_value_id ::
  "PredicateCondition \<Rightarrow> 'a::linorder option \<Rightarrow> 'a DictionarySegment \<Rightarrow> error + ValueID" where
  "get_search_value_id Equals right_value column = Inr (lower_bound column right_value)"
| "get_search_value_id NotEquals right_value column = Inr (lower_bound column right_value)"
| "get_search_value_id LessThan right_value column = Inr (lower_bound column right_value)"
| "get_search_value_id GreaterThanEquals right_value column = Inr (lower_bound column right_value)"
| "get_search_value_id LessThanEquals right_value column = Inr (upper_bound column right_value)"
| "get_search_value_id GreaterThan right_value column = Inr (upper_bound column right_value)"
| "get_search_value_id _ right_value column = Inl Fail"

fun right_value_matches_all ::
  "PredicateCondition \<Rightarrow> 'a::linorder option \<Rightarrow> 'a DictionarySegment \<Rightarrow> ValueID \<Rightarrow> error + bool" where
  "right_value_matches_all Equals right_value column search_value_id =
     Inr (search_value_id \<noteq> upper_bound column right_value \<and> unique_values_count column = 1)"
| "right_value_matches_all NotEquals right_value column search_value_id =
     Inr (search_value_id = upper_bound column right_value)"
| "right_value_matches_all LessThan right_value column search_value_id =
     Inr (search_value_id = INVALID_VALUE_ID)"
| "right_value_matches_all LessThanEquals right_value column search_value_id =
     Inr (search_value_id = INVALID_VALUE_ID)"
| "right_value_matches_all GreaterThanEquals right_value column search_value_id =
     Inr (search_value_id = 0)"
| "right_value_matches_all GreaterThan right_value column search_value_id =
     Inr (search_value_id = 0)"
| "right_value_matches_all _ right_value column search_value_id = Inl Fail"

fun right_value_matches_none ::
  "PredicateCondition \<Rightarrow> 'a::linorder option \<Rightarrow> 'a DictionarySegment \<Rightarrow> ValueID \<Rightarrow> error + bool" where
  "right_value_matches_none Equals right_value column search_value_id =
     Inr (search_value_id = upper_bound column right_value)"
| "right_value_matches_none NotEquals right_value column search_value_id =
     Inr (search_value_id = upper_bound column right_value \<and> unique_values_count column = 1)"
| "right_value_matches_none LessThan right_value column search_value_id =
     Inr (search_value_id = 0)"
| "right_value_matches_none LessThanEquals right_value column search_value_id =
     Inr (search_value_id = 0)"
| "right_value_matches_none GreaterThan right_value column search_value_id =
     Inr (search_value_id = INVALID_VALUE_ID)"
| "right_value_matches_none GreaterThanEquals right_value column search_value_id =
     Inr (search_value_id = INVALID_VALUE_ID)"
| "right_value_matches_none _ right_value column search_value_id = Inl Fail"

text \<open>
  Modelled from the spec: \<^verbatim>\<open>_with_operator_for_dict_column_scan\<close> is not among the
  sources.  \<^verbatim>\<open>_handle_dictionary_column\<close> hands it the condition only, and
  \<^verbatim>\<open>_binary_scan\<close> applies the functor it passes to the value id of the row and the
  search value id.  The functor is therefore the comparison of two value ids that the
  comment in \<^verbatim>\<open>_handle_dictionary_column\<close> tabulates for the condition: equal, not
  equal, less (for \<open><\<close> and \<open>\<le>\<close>), greater or equal (for \<open>>\<close> and \<open>\<ge>\<close>).
  Whether the dictionary holds the literal at all is not the functor's business: the two
  early outs decide it.
\<close>

fun with_operator_for_dict_column_scan ::
  "PredicateCondition \<Rightarrow> error + (ValueID \<Rightarrow> ValueID \<Rightarrow> bool)" where
  "with_operator_for_dict_column_scan Equals = Inr (\<lambda>value_id search. value_id = search)"
| "with_operator_for_dict_column_scan NotEquals = Inr (\<lambda>value_id search. value_id \<noteq> search)"
| "with_operator_for_dict_column_scan LessThan = Inr (\<lambda>value_id search. value_id < search)"
| "with_operator_for_dict_column_scan LessThanEquals = Inr (\<lambda>value_id search. value_id < search)"
| "with_operator_for_dict_column_scan GreaterThan = Inr (\<lambda>value_id search. value_id \<ge> search)"
| "with_operator_for_dict_column_scan GreaterThanEquals = Inr (\<lambda>value_id search. value_id \<ge> search)"
| "with_operator_for_dict_column_scan _ = Inl Fail"

text \<open>\<^verbatim>\<open>_handle_dictionary_column\<close>: search value id, the two early outs, then the scan
  of the attribute vector.\<close>

definition handle_dictionary_column ::
  "PredicateCondition \<Rightarrow> 'a::linorder option \<Rightarrow> 'a DictionarySegment \<Rightarrow> ChunkID
     \<Rightarrow> ChunkOffset list option \<Rightarrow> PosList \<Rightarrow> error + PosList" where
  "handle_dictionary_column predicate_condition right_value left_column chunk_id mapped_chunk_offsets matches_out =
     (case get_search_value_id predicate_condition right_value left_column of
        Inl e \<Rightarrow> Inl e
      | Inr search_value_id \<Rightarrow>
          (let left_iterable = attribute_vector_iterable left_column mapped_chunk_offsets in
           case right_value_matches_all predicate_condition right_value left_column search_value_id of
             Inl e \<Rightarrow> Inl e
           | Inr matches_all \<Rightarrow>
               if matches_all
               then Inr (unary_scan (\<lambda>_. True) left_iterable chunk_id matches_out)
               else
                 (case right_value_matches_none predicate_condition right_value left_column search_value_id of
                    Inl e \<Rightarrow> Inl e
                  | Inr matches_none \<Rightarrow>
                      if matches_none then Inr matches_out
                      else
                        (case with_operator_for_dict_column_scan predicate_condition of
                           Inl e \<Rightarrow> Inl e
                         | Inr comparator \<Rightarrow>
                             Inr (binary_scan comparator left_iterable (Some search_value_id)
                                    chunk_id matches_out)))))"

text \<open>
  Modelled from the spec: \<^verbatim>\<open>BaseSingleColumnTableScanImpl::scan_chunk\<close> is not among
  the sources; it starts from an empty list of matches and visits the segment, which
  dispatches on the encoding to one of the \<^verbatim>\<open>handle_column\<close> overloads.
\<close>

definition base_scan_chunk ::
  "PredicateCondition \<Rightarrow> 'a::linorder option \<Rightarrow> 'a Segment \<Rightarrow> ChunkID
     \<Rightarrow> ChunkOffset list option \<Rightarrow> error + PosList" where
  "base_scan_chunk predicate_condition right_value segment chunk_id mapped_chunk_offsets =
     (case segment of
        ValueSeg column \<Rightarrow>
          handle_value_column predicate_condition right_value column chunk_id mapped_chunk_offsets []
      | DictionarySeg column \<Rightarrow>
          handle_dictionary_column predicate_condition right_value column chunk_id mapped_chunk_offsets []
      | EncodedSeg column \<Rightarrow>
          handle_encoded_column predicate_condition right_value column chunk_id mapped_chunk_offsets [])"

text \<open>\<^verbatim>\<open>SingleColumnTableScanImpl::scan_chunk\<close>: the early out for a null literal.\<close>

definition scan_chunk ::
  "PredicateCondition \<Rightarrow> 'a::linorder option \<Rightarrow> 'a Segment \<Rightarrow> ChunkID
     \<Rightarrow> ChunkOffset list option \<Rightarrow> error + PosList" where
  "scan_chunk predicate_condition right_value segment chunk_id mapped_chunk_offsets =
     (if variant_is_null right_value then Inr []
      else base_scan_chunk predicate_condition right_value segment chunk_id mapped_chunk_offsets)"

section \<open>ColumnBetweenTableScanImpl\<close>

text \<open>
  \<^verbatim>\<open>_scan_generic_segment\<close>, \<^verbatim>\<open>_scan_dictionary_segment\<close> and the dispatch of
  \<^verbatim>\<open>_scan_non_reference_segment\<close>.  The constructor asserts that both bounds have the
  type of the column, so they are values, not variants.  \<^verbatim>\<open>ValueID\<close> arithmetic is
  that of \<^verbatim>\<open>uint32_t\<close>: the subtraction wraps.
\<close>

definition scan_generic_segment ::
  "'a::linorder \<Rightarrow> 'a \<Rightarrow> 'a ValueSegment \<Rightarrow> ChunkID \<Rightarrow> PosList \<Rightarrow> ChunkOffset list option \<Rightarrow> PosList" where
  "scan_generic_segment left_value right_value segment chunk_id matches position_filter =
     (let comparator = (\<lambda>position. pos_value position \<ge> left_value \<and> pos_value position \<le> right_value)
      in scan_with_iterators True comparator (value_segment_iterable segment position_filter) chunk_id matches)"

definition scan_dictionary_segment ::
  "'a::linorder \<Rightarrow> 'a \<Rightarrow> 'a DictionarySegment \<Rightarrow> ChunkID \<Rightarrow> PosList \<Rightarrow> ChunkOffset list option \<Rightarrow> PosList" where
  "scan_dictionary_segment left_value right_value segment chunk_id matches position_filter =
     (let left_value_id = lower_bound segment (Some left_value);
          right_value_id = upper_bound segment (Some right_value);
          right_value_id =
            (if right_value_id = INVALID_VALUE_ID then of_nat (unique_values_count segment)
             else right_value_id);
          column_iterable = attribute_vector_iterable segment position_filter
      in if left_value_id = 0 \<and> right_value_id = of_nat (unique_values_count segment)
         then scan_with_iterators True (\<lambda>_. True) column_iterable chunk_id matches
         else if left_value_id \<ge> of_nat (unique_values_count segment) \<or> left_value_id = right_value_id
         then matches
         else
           (let value_id_diff = right_value_id - left_value_id;
                comparator = (\<lambda>position. pos_value position - left_value_id < value_id_diff)
            in scan_with_iterators False comparator column_iterable chunk_id matches))"

definition scan_non_reference_segment ::
  "'a::linorder \<Rightarrow> 'a \<Rightarrow> 'a Segment \<Rightarrow> ChunkID \<Rightarrow> PosList \<Rightarrow> ChunkOffset list option \<Rightarrow> PosList" where
  "scan_non_reference_segment left_value right_value segment chunk_id matches position_filter =
     (case segment of
        DictionarySeg dictionary_segment \<Rightarrow>
          scan_dictionary_segment left_value right_value dictionary_segment chunk_id matches position_filter
      | ValueSeg value_segment \<Rightarrow>
          scan_generic_segment left_value right_value value_segment chunk_id matches position_filter
      | EncodedSeg encoded_segment \<Rightarrow>
          scan_generic_segment left_value right_value encoded_segment chunk_id matches position_filter)"

section \<open>Well-formed segments\<close>

text \<open>
  The invariants of a dictionary segment: the dictionary is strictly ascending, its size
  is below the sentinel, and every entry of the attribute vector is the sentinel or an
  index into the dictionary.
\<close>

definition dictionary_segment_valid :: "'a::linorder DictionarySegment \<Rightarrow> bool" where
  "dictionary_segment_valid segment =
     (sorted_wrt (\<lambda>x y. x < y) (dictionary segment)
      \<and> length (dictionary segment) < 4294967295
      \<and> list_all (\<lambda>a. a = INVALID_VALUE_ID \<or> unat a < length (dictionary segment))
           (attribute_vector segment))"

text \<open>A position filter refers to offsets of the segment.\<close>

definition position_filter_valid :: "nat \<Rightarrow> ChunkOffset list option \<Rightarrow> bool" where
  "position_filter_valid n position_filter =
     (case position_filter of None \<Rightarrow> True | Some offsets \<Rightarrow> list_all (\<lambda>i. i < n) offsets)"

text \<open>
  A value segment and a dictionary segment hold the same logical data when they have the
  same rows, the null bitmap marks the rows whose value id is the sentinel, and every
  other row holds the dictionary entry of its value id.
\<close>

definition same_logical_data :: "'a DictionarySegment \<Rightarrow> 'a ValueSegment \<Rightarrow> bool" where
  "same_logical_data dictionary_segment value_segment =
     (length (segment_values value_segment) = length (attribute_vector dictionary_segment)
      \<and> length (null_values value_segment) = length (attribute_vector dictionary_segment)
      \<and> list_all
           (\<lambda>i. null_values value_segment ! i = (attribute_vector dictionary_segment ! i = INVALID_VALUE_ID)
                \<and> (attribute_vector dictionary_segment ! i = INVALID_VALUE_ID
                    \<or> segment_values value_segment ! i
                        = dictionary dictionary_segment ! unat (attribute_vector dictionary_segment ! i)))
           [0..<length (attribute_vector dictionary_segment)])"

text \<open>What the dictionary path emits, condition by condition: the non-null rows whose
  dictionary value compares with the literal as the condition says.\<close>

definition matching_rows ::
  "('a \<Rightarrow> 'a \<Rightarrow> bool) \<Rightarrow> 'a \<Rightarrow> 'a DictionarySegment \<Rightarrow> ChunkID \<Rightarrow> ChunkOffset list option \<Rightarrow> PosList" where
  "matching_rows comparator v s chunk_id pf =
     map (\<lambda>p. (chunk_id, pos_chunk_offset p))
       (filter (\<lambda>p. \<not> pos_is_null p \<and> comparator (dictionary s ! unat (pos_value p)) v)
          (attribute_vector_iterable s pf))"

text \<open>The dictionary segment of the spec's third scenario, and a value segment with the
  same logical data.\<close>

definition example_dictionary_segment :: "int DictionarySegment" where
  "example_dictionary_segment =
     \<lparr>dictionary = [10, 20, 30], attribute_vector = [0, 1, 2, 1, INVALID_VALUE_ID]\<rparr>"

definition example_value_segment :: "int ValueSegment" where
  "example_value_segment =
     \<lparr>segment_values = [10, 20, 30, 20, 0], null_values = [False, False, False, False, True]\<rparr>"

section \<open>The scan loops as filters\<close>

lemma unary_scan_eq:
  "unary_scan func ps chunk_id out =
     out @ map (\<lambda>p. (chunk_id, pos_chunk_offset p)) (filter (\<lambda>p. \<not> pos_is_null p \<and> func (pos_value p)) ps)"
  by (induction ps arbitrary: out) auto

lemma binary_scan_eq:
  "binary_scan func ps (Some r) chunk_id out =
     out @ map (\<lambda>p. (chunk_id, pos_chunk_offset p)) (filter (\<lambda>p. \<not> pos_is_null p \<and> func (pos_value p) r) ps)"
  by (induction ps arbitrary: out) auto

lemma scan_with_iterators_eq:
  "scan_with_iterators chk func ps chunk_id out =
     out @ map (\<lambda>p. (chunk_id, pos_chunk_offset p)) (filter (\<lambda>p. (\<not> chk \<or> \<not> pos_is_null p) \<and> func p) ps)"
  by (induction ps arbitrary: out) auto

lemma takeWhile_less_sorted:
  "sorted xs \<Longrightarrow> k < length xs \<Longrightarrow> (k < length (takeWhile (\<lambda>d. d < v) xs)) = (xs ! k < (v::'a::linorder))"
proof (induction xs arbitrary: k)
  case Nil then show ?case by simp
next
  case (Cons x xs)
  show ?case
  proof (cases k)
    case 0 then show ?thesis by simp
  next
    case (Suc j)
    with Cons.prems have j: "j < length xs" and srt: "sorted xs" by simp_all
    from j Cons.prems have le: "x \<le> xs ! j" by simp
    from Cons.IH [OF srt j] le Suc show ?thesis by auto
  qed
qed

lemma takeWhile_le_sorted:
  "sorted xs \<Longrightarrow> k < length xs \<Longrightarrow> (k < length (takeWhile (\<lambda>d. d \<le> v) xs)) = (xs ! k \<le> (v::'a::linorder))"
proof (induction xs arbitrary: k)
  case Nil then show ?case by simp
next
  case (Cons x xs)
  show ?case
  proof (cases k)
    case 0 then show ?thesis by simp
  next
    case (Suc j)
    with Cons.prems have j: "j < length xs" and srt: "sorted xs" by simp_all
    from j Cons.prems have le: "x \<le> xs ! j" by simp
    from Cons.IH [OF srt j] le Suc show ?thesis by auto
  qed
qed

lemma takeWhile_less_le_length:
  "length (takeWhile (\<lambda>d. d < v) xs) \<le> length (takeWhile (\<lambda>d. d \<le> (v::'a::linorder)) xs)"
  by (induction xs) auto

lemma unat_INVALID: "unat INVALID_VALUE_ID = 4294967295"
  by (simp add: INVALID_VALUE_ID_def)

lemma unat_of_nat_vid: "n < 4294967295 \<Longrightarrow> unat (of_nat n :: ValueID) = n"
  by (simp add: unat_of_nat)

lemma of_nat_ne_INVALID: "n < 4294967295 \<Longrightarrow> (of_nat n :: ValueID) \<noteq> INVALID_VALUE_ID"
  using unat_of_nat_vid [of n] unat_INVALID by auto

section \<open>Bounds of a sorted dictionary\<close>

lemma valid_sorted: "dictionary_segment_valid s \<Longrightarrow> sorted (dictionary s)"
  by (simp add: dictionary_segment_valid_def strict_sorted_iff)

lemma valid_distinct: "dictionary_segment_valid s \<Longrightarrow> distinct (dictionary s)"
  by (simp add: dictionary_segment_valid_def strict_sorted_iff)

lemma valid_size: "dictionary_segment_valid s \<Longrightarrow> length (dictionary s) < 4294967295"
  by (simp add: dictionary_segment_valid_def)

lemma less_INVALID: "unat a < 4294967295 \<Longrightarrow> a < INVALID_VALUE_ID"
  by (simp add: word_less_nat_alt unat_INVALID)

lemma value_id_less_lower_bound:
  assumes "dictionary_segment_valid s" and "unat a < length (dictionary s)"
  shows "(a < lower_bound s (Some v)) = (dictionary s ! unat a < v)"
proof -
  let ?n = "length (takeWhile (\<lambda>d. d < v) (dictionary s))"
  have n: "?n \<le> length (dictionary s)" by (rule length_takeWhile_le)
  have iff: "(unat a < ?n) = (dictionary s ! unat a < v)"
    using takeWhile_less_sorted [OF valid_sorted [OF assms(1)] assms(2)] .
  show ?thesis
  proof (cases "?n = length (dictionary s)")
    case True
    then have "lower_bound s (Some v) = INVALID_VALUE_ID" by (simp add: lower_bound_def)
    moreover have "a < INVALID_VALUE_ID" using assms valid_size [OF assms(1)] by (intro less_INVALID) simp
    ultimately show ?thesis using iff True assms(2) by simp
  next
    case False
    then have lb: "lower_bound s (Some v) = of_nat ?n" by (simp add: lower_bound_def)
    have "?n < 4294967295" using n valid_size [OF assms(1)] by simp
    then have "unat (of_nat ?n :: ValueID) = ?n" by (rule unat_of_nat_vid)
    then show ?thesis using iff lb by (simp add: word_less_nat_alt)
  qed
qed

lemma value_id_less_upper_bound:
  assumes "dictionary_segment_valid s" and "unat a < length (dictionary s)"
  shows "(a < upper_bound s (Some v)) = (dictionary s ! unat a \<le> v)"
proof -
  let ?n = "length (takeWhile (\<lambda>d. d \<le> v) (dictionary s))"
  have n: "?n \<le> length (dictionary s)" by (rule length_takeWhile_le)
  have iff: "(unat a < ?n) = (dictionary s ! unat a \<le> v)"
    using takeWhile_le_sorted [OF valid_sorted [OF assms(1)] assms(2)] .
  show ?thesis
  proof (cases "?n = length (dictionary s)")
    case True
    then have "upper_bound s (Some v) = INVALID_VALUE_ID" by (simp add: upper_bound_def)
    moreover have "a < INVALID_VALUE_ID" using assms valid_size [OF assms(1)] by (intro less_INVALID) simp
    ultimately show ?thesis using iff True assms(2) by simp
  next
    case False
    then have lb: "upper_bound s (Some v) = of_nat ?n" by (simp add: upper_bound_def)
    have "?n < 4294967295" using n valid_size [OF assms(1)] by simp
    then have "unat (of_nat ?n :: ValueID) = ?n" by (rule unat_of_nat_vid)
    then show ?thesis using iff lb by (simp add: word_less_nat_alt)
  qed
qed

text \<open>When the two bounds differ, the lower bound is the value id of the literal.\<close>

lemma lower_bound_hit:
  assumes "dictionary_segment_valid s" and "lower_bound s (Some v) \<noteq> upper_bound s (Some v)"
  shows "unat (lower_bound s (Some v)) < length (dictionary s)
         \<and> dictionary s ! unat (lower_bound s (Some v)) = v"
proof -
  let ?l = "length (takeWhile (\<lambda>d. d < v) (dictionary s))"
  let ?u = "length (takeWhile (\<lambda>d. d \<le> v) (dictionary s))"
  have lu: "?l \<le> ?u" by (rule takeWhile_less_le_length)
  have u: "?u \<le> length (dictionary s)" by (rule length_takeWhile_le)
  have l_lt: "?l < length (dictionary s)"
  proof (rule ccontr)
    assume "\<not> ?l < length (dictionary s)"
    with lu u have "?l = length (dictionary s)" "?u = length (dictionary s)" by simp_all
    then have "lower_bound s (Some v) = upper_bound s (Some v)"
      by (simp add: lower_bound_def upper_bound_def)
    with assms(2) show False by simp
  qed
  then have lb: "lower_bound s (Some v) = of_nat ?l" by (simp add: lower_bound_def)
  have "?l < 4294967295" using l_lt valid_size [OF assms(1)] by simp
  then have un: "unat (lower_bound s (Some v)) = ?l" using lb unat_of_nat_vid by simp
  have "?l \<noteq> ?u"
  proof
    assume eq: "?l = ?u"
    then have "upper_bound s (Some v) = of_nat ?l" using l_lt by (simp add: upper_bound_def)
    with lb assms(2) show False by simp
  qed
  with lu have "?l < ?u" by simp
  then have "dictionary s ! ?l \<le> v"
    using takeWhile_le_sorted [OF valid_sorted [OF assms(1)] l_lt, of v] by simp
  moreover have "\<not> dictionary s ! ?l < v"
    using takeWhile_less_sorted [OF valid_sorted [OF assms(1)] l_lt, of v] by simp
  ultimately have "dictionary s ! ?l = v" by simp
  with un l_lt show ?thesis by simp
qed

lemma value_id_eq_lower_bound:
  assumes "dictionary_segment_valid s" and "unat a < length (dictionary s)"
    and "lower_bound s (Some v) \<noteq> upper_bound s (Some v)"
  shows "(a = lower_bound s (Some v)) = (dictionary s ! unat a = v)"
proof -
  from lower_bound_hit [OF assms(1,3)]
  have l: "unat (lower_bound s (Some v)) < length (dictionary s)"
    and v: "dictionary s ! unat (lower_bound s (Some v)) = v" by simp_all
  have "(dictionary s ! unat a = dictionary s ! unat (lower_bound s (Some v)))
        = (unat a = unat (lower_bound s (Some v)))"
    using valid_distinct [OF assms(1)] assms(2) l by (simp add: nth_eq_iff_index_eq)
  then show ?thesis using v by (auto simp: word_unat_eq_iff)
qed

lemma bounds_equal_miss:
  assumes "dictionary_segment_valid s" and "unat (a::ValueID) < length (dictionary s)"
    and "lower_bound s (Some v) = upper_bound s (Some v)"
  shows "dictionary s ! unat a \<noteq> v"
  using value_id_less_lower_bound [OF assms(1,2), of v] value_id_less_upper_bound [OF assms(1,2), of v] assms(3)
  by auto

section \<open>The dictionary path, condition by condition\<close>

lemma chunk_offsets_list_in_range:
  "position_filter_valid n pf \<Longrightarrow> (j, i) \<in> set (chunk_offsets_list n pf) \<Longrightarrow> i < n"
  by (auto simp: position_filter_valid_def chunk_offsets_list_def list_all_iff
      split: option.splits dest: set_zip_rightD)

lemma attribute_position_valid:
  assumes "dictionary_segment_valid s" and "position_filter_valid (length (attribute_vector s)) pf"
    and "p \<in> set (attribute_vector_iterable s pf)" and "\<not> pos_is_null p"
  shows "unat (pos_value p) < length (dictionary s)"
proof -
  from assms(3) obtain j i where ji: "(j, i) \<in> set (chunk_offsets_list (length (attribute_vector s)) pf)"
    and p: "p = SegmentPosition (attribute_vector s ! i) (attribute_vector s ! i = INVALID_VALUE_ID) j"
    by (auto simp: attribute_vector_iterable_def)
  from chunk_offsets_list_in_range [OF assms(2) ji] have "attribute_vector s ! i \<in> set (attribute_vector s)"
    by simp
  with assms(1) have "attribute_vector s ! i = INVALID_VALUE_ID \<or> unat (attribute_vector s ! i) < length (dictionary s)"
    by (simp add: dictionary_segment_valid_def list_all_iff)
  with p assms(4) show ?thesis by simp
qed

lemma dictionary_scan_Equals:
  assumes "dictionary_segment_valid s" and "position_filter_valid (length (attribute_vector s)) pf"
  shows "handle_dictionary_column Equals (Some v) s chunk_id pf out
         = Inr (out @ matching_rows (\<lambda>l r. l = r) v s chunk_id pf)"
proof -
  note valid = attribute_position_valid [OF assms]
  show ?thesis
  proof (cases "lower_bound s (Some v) = upper_bound s (Some v)")
    case True
    have "filter (\<lambda>p. \<not> pos_is_null p \<and> dictionary s ! unat (pos_value p) = v) (attribute_vector_iterable s pf) = []"
      using bounds_equal_miss [OF assms(1) valid True] by (auto simp: filter_empty_conv)
    with True show ?thesis
      by (simp add: handle_dictionary_column_def matching_rows_def Let_def)
  next
    case False
    have "filter (\<lambda>p. \<not> pos_is_null p \<and> pos_value p = lower_bound s (Some v)) (attribute_vector_iterable s pf)
        = filter (\<lambda>p. \<not> pos_is_null p \<and> dictionary s ! unat (pos_value p) = v) (attribute_vector_iterable s pf)"
      using value_id_eq_lower_bound [OF assms(1) valid False] by (intro filter_cong) auto
    moreover have "unique_values_count s = 1 \<Longrightarrow>
        filter (\<lambda>p. \<not> pos_is_null p) (attribute_vector_iterable s pf)
        = filter (\<lambda>p. \<not> pos_is_null p \<and> dictionary s ! unat (pos_value p) = v) (attribute_vector_iterable s pf)"
    proof (intro filter_cong refl)
      fix p assume u: "unique_values_count s = 1" and p: "p \<in> set (attribute_vector_iterable s pf)"
      show "(\<not> pos_is_null p) = (\<not> pos_is_null p \<and> dictionary s ! unat (pos_value p) = v)"
      proof (cases "pos_is_null p")
        case True then show ?thesis by simp
      next
        case nn: False
        from valid [OF p nn] u have "unat (pos_value p) = 0" by (simp add: unique_values_count_def)
        moreover from lower_bound_hit [OF assms(1) False]
        have l: "unat (lower_bound s (Some v)) < length (dictionary s)"
          and d: "dictionary s ! unat (lower_bound s (Some v)) = v" by blast+
        from l u have "unat (lower_bound s (Some v)) = 0" by (simp add: unique_values_count_def)
        ultimately show ?thesis using nn d by simp
      qed
    qed
    ultimately show ?thesis using False
      by (simp add: handle_dictionary_column_def matching_rows_def unary_scan_eq binary_scan_eq Let_def)
  qed
qed

lemma dictionary_scan_NotEquals:
  assumes "dictionary_segment_valid s" and "position_filter_valid (length (attribute_vector s)) pf"
  shows "handle_dictionary_column NotEquals (Some v) s chunk_id pf out
         = Inr (out @ matching_rows (\<lambda>l r. l \<noteq> r) v s chunk_id pf)"
proof -
  note valid = attribute_position_valid [OF assms]
  show ?thesis
  proof (cases "lower_bound s (Some v) = upper_bound s (Some v)")
    case True
    have "filter (\<lambda>p. \<not> pos_is_null p) (attribute_vector_iterable s pf)
        = filter (\<lambda>p. \<not> pos_is_null p \<and> dictionary s ! unat (pos_value p) \<noteq> v) (attribute_vector_iterable s pf)"
      using bounds_equal_miss [OF assms(1) valid True] by (intro filter_cong) auto
    with True show ?thesis
      by (simp add: handle_dictionary_column_def matching_rows_def unary_scan_eq Let_def)
  next
    case False
    have "filter (\<lambda>p. \<not> pos_is_null p \<and> pos_value p \<noteq> lower_bound s (Some v)) (attribute_vector_iterable s pf)
        = filter (\<lambda>p. \<not> pos_is_null p \<and> dictionary s ! unat (pos_value p) \<noteq> v) (attribute_vector_iterable s pf)"
      using value_id_eq_lower_bound [OF assms(1) valid False] by (intro filter_cong) auto
    then show ?thesis using False
      by (simp add: handle_dictionary_column_def matching_rows_def binary_scan_eq Let_def)
  qed
qed

lemma filter_non_null_all:
  assumes "\<And>p. p \<in> set ps \<Longrightarrow> \<not> pos_is_null p \<Longrightarrow> P p"
  shows "filter (\<lambda>p. \<not> pos_is_null p) ps = filter (\<lambda>p. \<not> pos_is_null p \<and> P p) ps"
  using assms by (intro filter_cong) auto

lemma filter_non_null_none:
  assumes "\<And>p. p \<in> set ps \<Longrightarrow> \<not> pos_is_null p \<Longrightarrow> \<not> P p"
  shows "filter (\<lambda>p. \<not> pos_is_null p \<and> P p) ps = []"
  using assms by (auto simp: filter_empty_conv)

lemma filter_non_null_cong:
  assumes "\<And>p. p \<in> set ps \<Longrightarrow> \<not> pos_is_null p \<Longrightarrow> P p = Q p"
  shows "filter (\<lambda>p. \<not> pos_is_null p \<and> P p) ps = filter (\<lambda>p. \<not> pos_is_null p \<and> Q p) ps"
  using assms by (intro filter_cong) auto

lemma not_less_zero_word: "\<not> (a::ValueID) < 0"
  by simp

lemma dictionary_scan_LessThan:
  assumes "dictionary_segment_valid s" and "position_filter_valid (length (attribute_vector s)) pf"
  shows "handle_dictionary_column LessThan (Some v) s chunk_id pf out
         = Inr (out @ matching_rows (\<lambda>l r. l < r) v s chunk_id pf)"
proof -
  note valid = attribute_position_valid [OF assms]
  let ?its = "attribute_vector_iterable s pf"
  let ?search = "lower_bound s (Some v)"
  have row: "\<And>p. p \<in> set ?its \<Longrightarrow> \<not> pos_is_null p \<Longrightarrow>
      (pos_value p < ?search) = (dictionary s ! unat (pos_value p) < v)"
    using value_id_less_lower_bound [OF assms(1) valid] by simp
  have lt_INVALID: "\<And>p. p \<in> set ?its \<Longrightarrow> \<not> pos_is_null p \<Longrightarrow> pos_value p < INVALID_VALUE_ID"
    using valid valid_size [OF assms(1)] by (intro less_INVALID) fastforce
  consider (all) "?search = INVALID_VALUE_ID" | (none) "?search \<noteq> INVALID_VALUE_ID" "?search = 0"
    | (scan) "?search \<noteq> INVALID_VALUE_ID" "?search \<noteq> 0" by blast
  then show ?thesis
  proof cases
    case all
    have "filter (\<lambda>p. \<not> pos_is_null p) ?its
        = filter (\<lambda>p. \<not> pos_is_null p \<and> dictionary s ! unat (pos_value p) < v) ?its"
      using row lt_INVALID all by (intro filter_non_null_all) simp
    with all show ?thesis
      by (simp add: handle_dictionary_column_def matching_rows_def unary_scan_eq Let_def)
  next
    case none
    have "filter (\<lambda>p. \<not> pos_is_null p \<and> dictionary s ! unat (pos_value p) < v) ?its = []"
      using row none by (intro filter_non_null_none) (metis not_less_zero_word)
    with none show ?thesis
      by (simp add: handle_dictionary_column_def matching_rows_def Let_def)
  next
    case scan
    have "filter (\<lambda>p. \<not> pos_is_null p \<and> pos_value p < ?search) ?its
        = filter (\<lambda>p. \<not> pos_is_null p \<and> dictionary s ! unat (pos_value p) < v) ?its"
      using row by (intro filter_non_null_cong) simp
    with scan show ?thesis
      by (simp add: handle_dictionary_column_def matching_rows_def binary_scan_eq Let_def)
  qed
qed

lemma dictionary_scan_LessThanEquals:
  assumes "dictionary_segment_valid s" and "position_filter_valid (length (attribute_vector s)) pf"
  shows "handle_dictionary_column LessThanEquals (Some v) s chunk_id pf out
         = Inr (out @ matching_rows (\<lambda>l r. l \<le> r) v s chunk_id pf)"
proof -
  note valid = attribute_position_valid [OF assms]
  let ?its = "attribute_vector_iterable s pf"
  let ?search = "upper_bound s (Some v)"
  have row: "\<And>p. p \<in> set ?its \<Longrightarrow> \<not> pos_is_null p \<Longrightarrow>
      (pos_value p < ?search) = (dictionary s ! unat (pos_value p) \<le> v)"
    using value_id_less_upper_bound [OF assms(1) valid] by simp
  have lt_INVALID: "\<And>p. p \<in> set ?its \<Longrightarrow> \<not> pos_is_null p \<Longrightarrow> pos_value p < INVALID_VALUE_ID"
    using valid valid_size [OF assms(1)] by (intro less_INVALID) fastforce
  consider (all) "?search = INVALID_VALUE_ID" | (none) "?search \<noteq> INVALID_VALUE_ID" "?search = 0"
    | (scan) "?search \<noteq> INVALID_VALUE_ID" "?search \<noteq> 0" by blast
  then show ?thesis
  proof cases
    case all
    have "filter (\<lambda>p. \<not> pos_is_null p) ?its
        = filter (\<lambda>p. \<not> pos_is_null p \<and> dictionary s ! unat (pos_value p) \<le> v) ?its"
      using row lt_INVALID all by (intro filter_non_null_all) simp
    with all show ?thesis
      by (simp add: handle_dictionary_column_def matching_rows_def unary_scan_eq Let_def)
  next
    case none
    have "filter (\<lambda>p. \<not> pos_is_null p \<and> dictionary s ! unat (pos_value p) \<le> v) ?its = []"
      using row none by (intro filter_non_null_none) (metis not_less_zero_word)
    with none show ?thesis
      by (simp add: handle_dictionary_column_def matching_rows_def Let_def)
  next
    case scan
    have "filter (\<lambda>p. \<not> pos_is_null p \<and> pos_value p < ?search) ?its
        = filter (\<lambda>p. \<not> pos_is_null p \<and> dictionary s ! unat (pos_value p) \<le> v) ?its"
      using row by (intro filter_non_null_cong) simp
    with scan show ?thesis
      by (simp add: handle_dictionary_column_def matching_rows_def binary_scan_eq Let_def)
  qed
qed

lemma dictionary_scan_GreaterThan:
  assumes "dictionary_segment_valid s" and "position_filter_valid (length (attribute_vector s)) pf"
  shows "handle_dictionary_column GreaterThan (Some v) s chunk_id pf out
         = Inr (out @ matching_rows (\<lambda>l r. l > r) v s chunk_id pf)"
proof -
  note valid = attribute_position_valid [OF assms]
  let ?its = "attribute_vector_iterable s pf"
  let ?search = "upper_bound s (Some v)"
  have row0: "\<And>p. p \<in> set ?its \<Longrightarrow> \<not> pos_is_null p \<Longrightarrow>
      (pos_value p < ?search) = (dictionary s ! unat (pos_value p) \<le> v)"
    using value_id_less_upper_bound [OF assms(1) valid] by simp
  have row: "\<And>p. p \<in> set ?its \<Longrightarrow> \<not> pos_is_null p \<Longrightarrow>
      (?search \<le> pos_value p) = (v < dictionary s ! unat (pos_value p))"
    using row0 by (metis leD leI)
  have lt_INVALID: "\<And>p. p \<in> set ?its \<Longrightarrow> \<not> pos_is_null p \<Longrightarrow> pos_value p < INVALID_VALUE_ID"
    using valid valid_size [OF assms(1)] by (intro less_INVALID) fastforce
  consider (all) "?search = 0" | (none) "?search \<noteq> 0" "?search = INVALID_VALUE_ID"
    | (scan) "?search \<noteq> INVALID_VALUE_ID" "?search \<noteq> 0" by blast
  then show ?thesis
  proof cases
    case all
    have "filter (\<lambda>p. \<not> pos_is_null p) ?its
        = filter (\<lambda>p. \<not> pos_is_null p \<and> v < dictionary s ! unat (pos_value p)) ?its"
      using row all by (intro filter_non_null_all) (metis word_zero_le)
    with all show ?thesis
      by (simp add: handle_dictionary_column_def matching_rows_def unary_scan_eq Let_def)
  next
    case none
    have "filter (\<lambda>p. \<not> pos_is_null p \<and> v < dictionary s ! unat (pos_value p)) ?its = []"
      using row lt_INVALID none by (intro filter_non_null_none) (metis not_le)
    with none show ?thesis
      by (simp add: handle_dictionary_column_def matching_rows_def Let_def)
  next
    case scan
    have "filter (\<lambda>p. \<not> pos_is_null p \<and> ?search \<le> pos_value p) ?its
        = filter (\<lambda>p. \<not> pos_is_null p \<and> v < dictionary s ! unat (pos_value p)) ?its"
      using row by (intro filter_non_null_cong) simp
    with scan show ?thesis
      by (simp add: handle_dictionary_column_def matching_rows_def binary_scan_eq Let_def)
  qed
qed

lemma dictionary_scan_GreaterThanEquals:
  assumes "dictionary_segment_valid s" and "position_filter_valid (length (attribute_vector s)) pf"
  shows "handle_dictionary_column GreaterThanEquals (Some v) s chunk_id pf out
         = Inr (out @ matching_rows (\<lambda>l r. l \<ge> r) v s chunk_id pf)"
proof -
  note valid = attribute_position_valid [OF assms]
  let ?its = "attribute_vector_iterable s pf"
  let ?search = "lower_bound s (Some v)"
  have row0: "\<And>p. p \<in> set ?its \<Longrightarrow> \<not> pos_is_null p \<Longrightarrow>
      (pos_value p < ?search) = (dictionary s ! unat (pos_value p) < v)"
    using value_id_less_lower_bound [OF assms(1) valid] by simp
  have row: "\<And>p. p \<in> set ?its \<Longrightarrow> \<not> pos_is_null p \<Longrightarrow>
      (?search \<le> pos_value p) = (v \<le> dictionary s ! unat (pos_value p))"
    using row0 by (metis leD leI)
  have lt_INVALID: "\<And>p. p \<in> set ?its \<Longrightarrow> \<not> pos_is_null p \<Longrightarrow> pos_value p < INVALID_VALUE_ID"
    using valid valid_size [OF assms(1)] by (intro less_INVALID) fastforce
  consider (all) "?search = 0" | (none) "?search \<noteq> 0" "?search = INVALID_VALUE_ID"
    | (scan) "?search \<noteq> INVALID_VALUE_ID" "?search \<noteq> 0" by blast
  then show ?thesis
  proof cases
    case all
    have "filter (\<lambda>p. \<not> pos_is_null p) ?its
        = filter (\<lambda>p. \<not> pos_is_null p \<and> v \<le> dictionary s ! unat (pos_value p)) ?its"
      using row all by (intro filter_non_null_all) (metis word_zero_le)
    with all show ?thesis
      by (simp add: handle_dictionary_column_def matching_rows_def unary_scan_eq Let_def)
  next
    case none
    have "filter (\<lambda>p. \<not> pos_is_null p \<and> v \<le> dictionary s ! unat (pos_value p)) ?its = []"
      using row lt_INVALID none by (intro filter_non_null_none) (metis not_le)
    with none show ?thesis
      by (simp add: handle_dictionary_column_def matching_rows_def Let_def)
  next
    case scan
    have "filter (\<lambda>p. \<not> pos_is_null p \<and> ?search \<le> pos_value p) ?its
        = filter (\<lambda>p. \<not> pos_is_null p \<and> v \<le> dictionary s ! unat (pos_value p)) ?its"
      using row by (intro filter_non_null_cong) simp
    with scan show ?thesis
      by (simp add: handle_dictionary_column_def matching_rows_def binary_scan_eq Let_def)
  qed
qed

lemma value_scan_eq:
  assumes "with_comparator cond = Inr comparator"
  shows "handle_value_column cond (Some v) vs chunk_id pf out
         = Inr (out @ map (\<lambda>p. (chunk_id, pos_chunk_offset p))
                  (filter (\<lambda>p. \<not> pos_is_null p \<and> comparator (pos_value p) v) (value_segment_iterable vs pf)))"
  using assms by (simp add: handle_value_column_def binary_scan_eq Let_def)

lemma map_filter_map_cong:
  assumes "\<And>x. x \<in> set xs \<Longrightarrow> P (f x) = Q (g x)"
    and "\<And>x. x \<in> set xs \<Longrightarrow> h (f x) = k (g x)"
  shows "map h (filter P (map f xs)) = map k (filter Q (map g xs))"
  using assms by (induction xs) auto

lemma matching_rows_value_scan:
  assumes "same_logical_data s vs" and "position_filter_valid (length (attribute_vector s)) pf"
  shows "matching_rows comparator v s chunk_id pf
         = map (\<lambda>p. (chunk_id, pos_chunk_offset p))
             (filter (\<lambda>p. \<not> pos_is_null p \<and> comparator (pos_value p) v) (value_segment_iterable vs pf))"
proof -
  from assms(1) have len: "length (segment_values vs) = length (attribute_vector s)"
    by (simp add: same_logical_data_def)
  have row: "null_values vs ! i = (attribute_vector s ! i = INVALID_VALUE_ID)
      \<and> (attribute_vector s ! i = INVALID_VALUE_ID
          \<or> segment_values vs ! i = dictionary s ! unat (attribute_vector s ! i))"
    if "i < length (attribute_vector s)" for i
    using assms(1) that by (simp add: same_logical_data_def list_all_iff)
  show ?thesis
    unfolding matching_rows_def attribute_vector_iterable_def value_segment_iterable_def len
  proof (rule map_filter_map_cong)
    fix x assume x: "x \<in> set (chunk_offsets_list (length (attribute_vector s)) pf)"
    obtain j i where ji: "x = (j, i)" by (cases x)
    with x chunk_offsets_list_in_range [OF assms(2)] have "i < length (attribute_vector s)" by blast
    from row [OF this] ji
    show "(\<not> pos_is_null (case x of (j, i) \<Rightarrow> SegmentPosition (attribute_vector s ! i) (attribute_vector s ! i = INVALID_VALUE_ID) j)
          \<and> comparator (dictionary s ! unat (pos_value (case x of (j, i) \<Rightarrow> SegmentPosition (attribute_vector s ! i) (attribute_vector s ! i = INVALID_VALUE_ID) j))) v)
        = (\<not> pos_is_null (case x of (j, i) \<Rightarrow> SegmentPosition (segment_values vs ! i) (null_values vs ! i) j)
          \<and> comparator (pos_value (case x of (j, i) \<Rightarrow> SegmentPosition (segment_values vs ! i) (null_values vs ! i) j)) v)"
      by auto
    from ji show "(chunk_id, pos_chunk_offset (case x of (j, i) \<Rightarrow> SegmentPosition (attribute_vector s ! i) (attribute_vector s ! i = INVALID_VALUE_ID) j))
        = (chunk_id, pos_chunk_offset (case x of (j, i) \<Rightarrow> SegmentPosition (segment_values vs ! i) (null_values vs ! i) j))"
      by simp
  qed
qed

lemma attribute_offsets_distinct:
  "distinct (map pos_chunk_offset (attribute_vector_iterable s pf))"
proof -
  have "map pos_chunk_offset (attribute_vector_iterable s pf)
      = map fst (chunk_offsets_list (length (attribute_vector s)) pf)"
    by (simp add: attribute_vector_iterable_def split_def)
  also have "distinct \<dots>"
    by (cases pf) (simp_all add: chunk_offsets_list_def comp_def)
  finally show ?thesis .
qed

lemma matching_rows_no_null:
  assumes "p \<in> set (attribute_vector_iterable s pf)" and "pos_is_null p"
  shows "(chunk_id, pos_chunk_offset p) \<notin> set (matching_rows comparator v s chunk_id pf)"
proof
  assume "(chunk_id, pos_chunk_offset p) \<in> set (matching_rows comparator v s chunk_id pf)"
  then obtain q where q: "q \<in> set (attribute_vector_iterable s pf)" "\<not> pos_is_null q"
    "pos_chunk_offset q = pos_chunk_offset p"
    by (auto simp: matching_rows_def)
  from attribute_offsets_distinct [of s pf] have "inj_on pos_chunk_offset (set (attribute_vector_iterable s pf))"
    by (simp add: distinct_map)
  with q assms(1) have "q = p" by (auto dest: inj_onD)
  with q assms(2) show False by simp
qed

lemma dictionary_scan_matching_rows:
  assumes "dictionary_segment_valid s" and "position_filter_valid (length (attribute_vector s)) pf"
    and "cond \<in> {Equals, NotEquals, LessThan, LessThanEquals, GreaterThan, GreaterThanEquals}"
  shows "\<exists>comparator. with_comparator cond = Inr comparator
           \<and> handle_dictionary_column cond (Some v) s chunk_id pf out
               = Inr (out @ matching_rows comparator v s chunk_id pf)"
  using assms(3)
    dictionary_scan_Equals [OF assms(1,2)] dictionary_scan_NotEquals [OF assms(1,2)]
    dictionary_scan_LessThan [OF assms(1,2)] dictionary_scan_LessThanEquals [OF assms(1,2)]
    dictionary_scan_GreaterThan [OF assms(1,2)] dictionary_scan_GreaterThanEquals [OF assms(1,2)]
  by auto

text \<open>
  Claim C2.  For a well-formed dictionary segment, a value segment with the same logical
  data, any position filter over the segment and a non-null literal, the dictionary path
  of each of the six comparisons (search value id, the two early outs, the scan of the
  attribute vector) returns the very position list that the generic scan of the value
  segment returns, hence the same set of positions; and no row whose value id is the null
  sentinel is in it, whichever branch was taken.
\<close>

theorem dictionary_scan_equals_value_scan:
  assumes "dictionary_segment_valid dictionary_segment"
    and "same_logical_data dictionary_segment value_segment"
    and "position_filter_valid (length (attribute_vector dictionary_segment)) position_filter"
    and "predicate_condition \<in> {Equals, NotEquals, LessThan, LessThanEquals, GreaterThan, GreaterThanEquals}"
  shows "scan_chunk predicate_condition (Some v) (DictionarySeg dictionary_segment) chunk_id position_filter
           = scan_chunk predicate_condition (Some v) (ValueSeg value_segment) chunk_id position_filter
         \<and> (\<exists>matches.
              scan_chunk predicate_condition (Some v) (DictionarySeg dictionary_segment) chunk_id position_filter
                = Inr matches
              \<and> (\<forall>p \<in> set (attribute_vector_iterable dictionary_segment position_filter).
                    pos_is_null p \<longrightarrow> (chunk_id, pos_chunk_offset p) \<notin> set matches))"
proof -
  from dictionary_scan_matching_rows [OF assms(1,3,4), of v chunk_id "[]"]
  obtain comparator where c: "with_comparator predicate_condition = Inr comparator"
    and d: "handle_dictionary_column predicate_condition (Some v) dictionary_segment chunk_id position_filter []
            = Inr (matching_rows comparator v dictionary_segment chunk_id position_filter)"
    by auto
  have "handle_value_column predicate_condition (Some v) value_segment chunk_id position_filter []
        = Inr (matching_rows comparator v dictionary_segment chunk_id position_filter)"
    using value_scan_eq [OF c, of v value_segment chunk_id position_filter "[]"]
      matching_rows_value_scan [OF assms(2,3), of comparator v chunk_id] by simp
  with d show ?thesis
    by (auto simp: scan_chunk_def base_scan_chunk_def variant_is_null_def matching_rows_no_null)
qed

lemma example_valid: "dictionary_segment_valid example_dictionary_segment"
  by (simp add: dictionary_segment_valid_def example_dictionary_segment_def INVALID_VALUE_ID_def)

lemma example_same: "same_logical_data example_dictionary_segment example_value_segment"
  by (simp add: same_logical_data_def example_dictionary_segment_def example_value_segment_def
      INVALID_VALUE_ID_def upt_rec)

text \<open>
  The dictionary \<open>[10, 20, 30]\<close> with attribute vector \<open>[0, 1, 2, 1, INVALID]\<close>
  satisfies the hypotheses.  By the theorem the dictionary path emits what the generic
  scan emits: the offsets 1, 2 and 3 for \<open>GreaterThanEquals 20\<close>, the offsets 1 and 3
  for \<open>Equals 20\<close>, and nothing for \<open>Equals 25\<close>.
\<close>

theorem dictionary_scan_equals_value_scan_witness:
  "dictionary_segment_valid example_dictionary_segment
   \<and> same_logical_data example_dictionary_segment example_value_segment
   \<and> scan_chunk GreaterThanEquals (Some 20) (DictionarySeg example_dictionary_segment) 0 None
       = Inr [(0, 1), (0, 2), (0, 3)]
   \<and> scan_chunk Equals (Some 20) (DictionarySeg example_dictionary_segment) 0 None
       = Inr [(0, 1), (0, 3)]
   \<and> scan_chunk Equals (Some 25) (DictionarySeg example_dictionary_segment) 0 None = Inr []"
proof -
  have pf: "position_filter_valid (length (attribute_vector example_dictionary_segment)) None"
    by (simp add: position_filter_valid_def)
  have v: "scan_chunk GreaterThanEquals (Some 20) (ValueSeg example_value_segment) 0 None
             = Inr [(0, 1), (0, 2), (0, 3)]"
    "scan_chunk Equals (Some 20) (ValueSeg example_value_segment) 0 None = Inr [(0, 1), (0, 3)]"
    "scan_chunk Equals (Some 25) (ValueSeg example_value_segment) 0 None = Inr []"
    by (simp_all add: scan_chunk_def base_scan_chunk_def variant_is_null_def handle_value_column_def
        value_segment_iterable_def chunk_offsets_list_def example_value_segment_def upt_rec)
  from dictionary_scan_equals_value_scan [OF example_valid example_same pf, of GreaterThanEquals 20 0]
    dictionary_scan_equals_value_scan [OF example_valid example_same pf, of Equals 20 0]
    dictionary_scan_equals_value_scan [OF example_valid example_same pf, of Equals 25 0]
    v example_valid example_same
  show ?thesis by simp
qed

text \<open>
  The early out for "matches none" carries the \<open>Equals 25\<close> case: the functor sees value
  ids only, the search value id of 25 is 2, the id of the entry 30, and the scan of the
  attribute vector with that functor alone would emit offset 2.
\<close>

lemma matches_none_early_out_needed:
  "binary_scan (\<lambda>value_id search. value_id = search)
     (attribute_vector_iterable example_dictionary_segment None)
     (Some (lower_bound example_dictionary_segment (Some 25))) 0 [] = [(0, 2)]
   \<and> handle_dictionary_column Equals (Some 25) example_dictionary_segment 0 None [] = Inr []"
  by (simp add: handle_dictionary_column_def example_dictionary_segment_def lower_bound_def
      upper_bound_def attribute_vector_iterable_def chunk_offsets_list_def INVALID_VALUE_ID_def
      unique_values_count_def upt_rec Let_def)

section \<open>Null literals\<close>

text \<open>
  Claim C9.  Whatever the chunk, the encoding of its segment, the position filter and
  the condition handed to \<^verbatim>\<open>SingleColumnTableScanImpl\<close>, a scan whose literal is null
  returns the empty position list and does not fail: the comparison with null is unknown
  and filters every row out.
\<close>

theorem scan_chunk_null_literal_empty:
  "scan_chunk predicate_condition None segment chunk_id mapped_chunk_offsets = Inr []"
  by (simp add: scan_chunk_def variant_is_null_def)

section \<open>BETWEEN on a dictionary segment\<close>

lemma value_id_window:
  fixes a left right :: ValueID
  assumes "left \<le> right"
  shows "(a - left < right - left) = (left \<le> a \<and> a < right)"
proof -
  have "unat right < 4294967296" "unat a < 4294967296"
    using unsigned_less [of right, where ?'a = nat] unsigned_less [of a, where ?'a = nat] by simp_all
  with assms show ?thesis
    by (auto simp: word_less_nat_alt word_le_nat_alt unat_sub_if_size word_size)
qed

lemma scan_generic_segment_eq:
  "scan_generic_segment lo hi vs chunk_id out pf
   = out @ map (\<lambda>p. (chunk_id, pos_chunk_offset p))
       (filter (\<lambda>p. \<not> pos_is_null p \<and> (\<lambda>l r. lo \<le> l \<and> l \<le> r) (pos_value p) hi) (value_segment_iterable vs pf))"
  by (simp add: scan_generic_segment_def scan_with_iterators_eq Let_def)

lemma takeWhile_less_le_length_mono:
  "lo \<le> hi \<Longrightarrow> length (takeWhile (\<lambda>d. d < lo) xs) \<le> length (takeWhile (\<lambda>d. d \<le> (hi::'a::linorder)) xs)"
  by (induction xs) auto

lemma right_value_id_of_nat:
  assumes "dictionary_segment_valid s"
  shows "(if upper_bound s (Some hi) = INVALID_VALUE_ID then of_nat (unique_values_count s)
          else upper_bound s (Some hi))
         = of_nat (length (takeWhile (\<lambda>d. d \<le> hi) (dictionary s)))"
proof (cases "length (takeWhile (\<lambda>d. d \<le> hi) (dictionary s)) = length (dictionary s)")
  case True
  then show ?thesis by (simp add: upper_bound_def unique_values_count_def)
next
  case False
  have "length (takeWhile (\<lambda>d. d \<le> hi) (dictionary s)) \<le> length (dictionary s)"
    by (rule length_takeWhile_le)
  with False valid_size [OF assms]
  have "(of_nat (length (takeWhile (\<lambda>d. d \<le> hi) (dictionary s))) :: ValueID) \<noteq> INVALID_VALUE_ID"
    by (intro of_nat_ne_INVALID) simp
  with False show ?thesis by (simp add: upper_bound_def)
qed

lemma between_window_row:
  assumes valid: "dictionary_segment_valid s"
    and pf: "position_filter_valid (length (attribute_vector s)) pf"
    and p: "p \<in> set (attribute_vector_iterable s pf)"
  shows "(lower_bound s (Some lo) \<le> pos_value p
          \<and> pos_value p < (if upper_bound s (Some hi) = INVALID_VALUE_ID
                             then of_nat (unique_values_count s) else upper_bound s (Some hi)))
       = (\<not> pos_is_null p \<and> lo \<le> dictionary s ! unat (pos_value p) \<and> dictionary s ! unat (pos_value p) \<le> hi)"
proof -
  define right_value_id where "right_value_id =
    (if upper_bound s (Some hi) = INVALID_VALUE_ID then of_nat (unique_values_count s)
     else upper_bound s (Some hi))"
  have "(lower_bound s (Some lo) \<le> pos_value p \<and> pos_value p < right_value_id)
       = (\<not> pos_is_null p \<and> lo \<le> dictionary s ! unat (pos_value p) \<and> dictionary s ! unat (pos_value p) \<le> hi)"
  proof (cases "pos_is_null p")
  case True
  with p have a: "pos_value p = INVALID_VALUE_ID" by (auto simp: attribute_vector_iterable_def)
  let ?r = "length (takeWhile (\<lambda>d. d \<le> hi) (dictionary s))"
  have r: "?r \<le> length (dictionary s)" by (rule length_takeWhile_le)
  have "right_value_id = of_nat ?r"
    unfolding right_value_id_def by (rule right_value_id_of_nat [OF valid])
  moreover have "unat (of_nat ?r :: ValueID) = ?r"
    using r valid_size [OF valid] by (intro unat_of_nat_vid) simp
  ultimately have "unat right_value_id < 4294967295" using r valid_size [OF valid] by simp
  then have "\<not> INVALID_VALUE_ID < right_value_id"
    by (simp add: word_less_nat_alt unat_INVALID)
  with True a show ?thesis by simp
next
  case False
  from attribute_position_valid [OF valid pf p False]
  have k: "unat (pos_value p) < length (dictionary s)" .
  have "(pos_value p < lower_bound s (Some lo)) = (dictionary s ! unat (pos_value p) < lo)"
    by (rule value_id_less_lower_bound [OF valid k])
  then have left: "(lower_bound s (Some lo) \<le> pos_value p) = (lo \<le> dictionary s ! unat (pos_value p))"
    by (metis leD leI)
  have up: "(pos_value p < upper_bound s (Some hi)) = (dictionary s ! unat (pos_value p) \<le> hi)"
    by (rule value_id_less_upper_bound [OF valid k])
  have "(pos_value p < right_value_id) = (dictionary s ! unat (pos_value p) \<le> hi)"
  proof (cases "upper_bound s (Some hi) = INVALID_VALUE_ID")
    case inv: True
    have "unat (of_nat (length (dictionary s)) :: ValueID) = length (dictionary s)"
      using valid_size [OF valid] by (intro unat_of_nat_vid)
    then have "pos_value p < of_nat (length (dictionary s))"
      using k by (simp add: word_less_nat_alt)
    moreover have "pos_value p < INVALID_VALUE_ID"
      using k valid_size [OF valid] by (intro less_INVALID) simp
    ultimately show ?thesis using up inv by (simp add: right_value_id_def unique_values_count_def)
  next
    case False
    with up show ?thesis by (simp add: right_value_id_def)
  qed
  with left False show ?thesis by simp
  qed
  then show ?thesis unfolding right_value_id_def .
qed

text \<open>
  With ordered bounds the dictionary path emits exactly the non-null rows whose value
  lies between them: the window test \<open>(a - left) < (right - left)\<close> is then the
  conjunction \<open>left \<le> a \<and> a < right\<close>, and the sentinel lies above every right id.
\<close>

lemma between_dictionary_scan_ordered_bounds:
  assumes valid: "dictionary_segment_valid s"
    and pf: "position_filter_valid (length (attribute_vector s)) pf"
    and bounds: "lo \<le> hi"
  shows "scan_dictionary_segment lo hi s chunk_id out pf
         = out @ matching_rows (\<lambda>l r. lo \<le> l \<and> l \<le> r) hi s chunk_id pf"
proof -
  let ?its = "attribute_vector_iterable s pf"
  let ?l = "length (takeWhile (\<lambda>d. d < lo) (dictionary s))"
  let ?r = "length (takeWhile (\<lambda>d. d \<le> hi) (dictionary s))"
  let ?match = "\<lambda>p. \<not> pos_is_null p \<and> lo \<le> dictionary s ! unat (pos_value p) \<and> dictionary s ! unat (pos_value p) \<le> hi"
  define left where "left = lower_bound s (Some lo)"
  define right where "right =
    (if upper_bound s (Some hi) = INVALID_VALUE_ID then of_nat (unique_values_count s)
     else upper_bound s (Some hi))"
  define U :: ValueID where "U = of_nat (unique_values_count s)"
  have unfold: "scan_dictionary_segment lo hi s chunk_id out pf =
      (if left = 0 \<and> right = U then scan_with_iterators True (\<lambda>_. True) ?its chunk_id out
       else if left \<ge> U \<or> left = right then out
       else scan_with_iterators False (\<lambda>position. pos_value position - left < right - left) ?its chunk_id out)"
    unfolding scan_dictionary_segment_def Let_def left_def right_def U_def by (rule refl)
  have row: "(left \<le> pos_value p \<and> pos_value p < right) = ?match p" if "p \<in> set ?its" for p
    unfolding left_def right_def by (rule between_window_row [OF valid pf that])
  have lr: "?l \<le> ?r" by (rule takeWhile_less_le_length_mono [OF bounds])
  have r: "?r \<le> length (dictionary s)" by (rule length_takeWhile_le)
  have right: "right = of_nat ?r"
    unfolding right_def by (rule right_value_id_of_nat [OF valid])
  have unat_r: "unat (of_nat ?r :: ValueID) = ?r"
    using r valid_size [OF valid] by (intro unat_of_nat_vid) simp
  have unat_U: "unat U = length (dictionary s)"
    using valid_size [OF valid] unfolding U_def unique_values_count_def by (intro unat_of_nat_vid)
  have right_le_U: "right \<le> U"
    unfolding right using unat_r unat_U r by (simp add: word_le_nat_alt)
  consider (all) "left = 0" "right = U"
    | (none) "\<not> (left = 0 \<and> right = U)" "left \<ge> U \<or> left = right"
    | (scan) "\<not> (left = 0 \<and> right = U)" "\<not> (left \<ge> U \<or> left = right)"
    by blast
  then show ?thesis
  proof cases
    case all
    have "filter (\<lambda>p. \<not> pos_is_null p) ?its = filter ?match ?its"
    proof (intro filter_cong refl)
      fix p assume p: "p \<in> set ?its"
      show "(\<not> pos_is_null p) = ?match p"
      proof (cases "pos_is_null p")
        case True then show ?thesis by simp
      next
        case False
        from attribute_position_valid [OF valid pf p False] unat_U
        have "pos_value p < U" by (simp add: word_less_nat_alt)
        with row [OF p] all False show ?thesis by simp
      qed
    qed
    with all show ?thesis
      by (simp add: unfold matching_rows_def scan_with_iterators_eq)
  next
    case none
    have "filter ?match ?its = []"
    proof -
      have "\<not> ?match p" if p: "p \<in> set ?its" for p
      proof -
        have "\<not> (left \<le> pos_value p \<and> pos_value p < right)"
          using none(2) right_le_U by auto
        with row [OF p] show ?thesis by simp
      qed
      then show ?thesis by (auto simp: filter_empty_conv)
    qed
    with none show ?thesis
      by (auto simp: unfold matching_rows_def)
  next
    case scan
    have l_lt: "?l < length (dictionary s)"
    proof (rule ccontr)
      assume "\<not> ?l < length (dictionary s)"
      moreover have "?l \<le> length (dictionary s)" by (rule length_takeWhile_le)
      ultimately have "?l = length (dictionary s)" by simp
      then have "left = INVALID_VALUE_ID" by (simp add: left_def lower_bound_def)
      moreover have "U \<le> INVALID_VALUE_ID"
        using unat_U valid_size [OF valid] by (simp add: word_le_nat_alt unat_INVALID)
      ultimately show False using scan(2) by simp
    qed
    then have "left = of_nat ?l" by (simp add: left_def lower_bound_def)
    moreover have "unat (of_nat ?l :: ValueID) = ?l"
      using l_lt valid_size [OF valid] by (intro unat_of_nat_vid) simp
    ultimately have "left \<le> right"
      unfolding right using unat_r lr by (simp add: word_le_nat_alt)
    then have "filter (\<lambda>p. pos_value p - left < right - left) ?its = filter ?match ?its"
      using row by (intro filter_cong refl) (simp only: value_id_window)
    with scan show ?thesis
      by (auto simp: unfold matching_rows_def scan_with_iterators_eq)
  qed
qed

lemma between_dictionary_scan_equals_generic_scan:
  assumes "dictionary_segment_valid s" and "same_logical_data s vs"
    and "position_filter_valid (length (attribute_vector s)) pf" and "lo \<le> hi"
  shows "scan_dictionary_segment lo hi s chunk_id out pf = scan_generic_segment lo hi vs chunk_id out pf"
  using between_dictionary_scan_ordered_bounds [OF assms(1,3,4)]
    matching_rows_value_scan [OF assms(2,3), of "\<lambda>l r. lo \<le> l \<and> l \<le> r" hi chunk_id]
  by (simp add: scan_generic_segment_eq)

text \<open>
  Claim C3.  The dictionary BETWEEN path is to emit exactly the non-null rows whose value
  \<open>x\<close> satisfies \<open>lo \<le> x \<le> hi\<close>.  For \<open>lo > hi\<close> with dictionary entries between
  the bounds it does not: on the dictionary \<open>[10, 20, 30]\<close> with attribute vector
  \<open>[0, 1, 2, 1, INVALID]\<close>, \<open>Between 25 15\<close> has left id 2 and right id 1, neither
  early out applies, the difference \<open>1 - 2\<close> wraps to \<open>0xFFFFFFFF\<close>, and the scan emits
  the offsets 0, 2 and 4, the null row among them, where the generic path emits nothing.
\<close>

theorem between_dictionary_scan_reversed_bounds:
  "scan_non_reference_segment 25 15 (DictionarySeg example_dictionary_segment) 0 [] None = [(0, 0), (0, 2), (0, 4)]
   \<and> scan_non_reference_segment 25 15 (ValueSeg example_value_segment) 0 [] None = []"
  by (simp add: scan_non_reference_segment_def scan_dictionary_segment_def scan_generic_segment_def
      example_dictionary_segment_def example_value_segment_def lower_bound_def upper_bound_def
      unique_values_count_def attribute_vector_iterable_def value_segment_iterable_def
      chunk_offsets_list_def INVALID_VALUE_ID_def upt_rec Let_def word_gt_0)

end
